theory Spec2Isabelle
  imports Main "HOL-Library.Word"
begin

section \<open>The lifeline bouncer: frame codec\<close>

text \<open>
  The bouncer relays a client to one upstream server and frames both directions
  as \<open>[kind:1][length:2, big-endian][payload]\<close>. A Python \<open>bytes\<close> value is a
  list of 8-bit words, a Python integer is an \<open>int\<close>, and a raised exception
  is a value of \<open>exc\<close>.
\<close>

type_synonym byte = "8 word"
type_synonym bytes = "byte list"

datatype exc =
    StructError
  | TypeError
  | KeyError
  | AttributeError
  | JSONDecodeError
  | OSError

definition MUD_PORT :: int where
  "MUD_PORT = 6666"

definition BUFFER_LIMIT :: nat where
  "BUFFER_LIMIT = 65536"

definition SESSION_TIMEOUT :: int where
  "SESSION_TIMEOUT = 600"

definition TYPE_DATA :: int where
  "TYPE_DATA = 0"

definition TYPE_CTRL :: int where
  "TYPE_CTRL = 1"

text \<open>
  \<open>struct.pack("!BH", frame_type, n)\<close>: one unsigned byte and one unsigned
  big-endian 16-bit field; a value out of range raises \<open>struct.error\<close>.
\<close>

definition struct_pack_BH :: "int \<Rightarrow> nat \<Rightarrow> exc + bytes" where
  "struct_pack_BH frame_type n =
     (if 0 \<le> frame_type \<and> frame_type \<le> 255 \<and> n \<le> 65535
      then Inr [word_of_int frame_type, word_of_nat (n div 256), word_of_nat (n mod 256)]
      else Inl StructError)"

text \<open>\<open>struct.unpack("!BH", h)\<close> on a three-byte header \<open>[a, b, c]\<close>.\<close>

definition struct_unpack_BH :: "byte \<Rightarrow> byte \<Rightarrow> byte \<Rightarrow> int \<times> nat" where
  "struct_unpack_BH a b c = (uint a, unat b * 256 + unat c)"

definition pack_frame :: "int \<Rightarrow> bytes \<Rightarrow> exc + bytes" where
  "pack_frame frame_type payload =
     (case struct_pack_BH frame_type (length payload) of
        Inl e \<Rightarrow> Inl e
      | Inr header \<Rightarrow> Inr (header @ payload))"

text \<open>
  \<open>unpack_frames\<close> appends to \<open>frames\<close> and deletes the consumed prefix of the
  bytearray in place; the caller keeps the bytearray, so the model returns the
  frames together with what is left of it.
\<close>

function unpack_loop :: "(int \<times> bytes) list \<Rightarrow> bytes \<Rightarrow> (int \<times> bytes) list \<times> bytes" where
  "unpack_loop frames data =
     (if 3 \<le> length data then
        (case struct_unpack_BH (data ! 0) (data ! 1) (data ! 2) of
           (frame_type, len) \<Rightarrow>
             if length data < 3 + len then (frames, data)
             else unpack_loop (frames @ [(frame_type, take len (drop 3 data))])
                              (drop (3 + len) data))
      else (frames, data))"
  by pat_completeness auto
termination
  by (relation "measure (\<lambda>(frames, data). length data)") auto

definition unpack_frames :: "bytes \<Rightarrow> (int \<times> bytes) list \<times> bytes" where
  "unpack_frames data = unpack_loop [] data"

text \<open>
  The client relay loop decodes as bytes arrive: each read is appended to the
  loop's bytearray and \<open>unpack_frames\<close> runs on it, leaving the undecoded rest
  in the bytearray for the next read. \<open>decode_chunks\<close> is that loop on a list of
  reads, collecting the frames of every call in order.
\<close>

fun decode_chunks :: "bytes \<Rightarrow> bytes list \<Rightarrow> (int \<times> bytes) list \<times> bytes" where
  "decode_chunks buf [] = ([], buf)"
| "decode_chunks buf (data # rest) =
     (case unpack_frames (buf @ data) of
        (frames, buf') \<Rightarrow>
          (case decode_chunks buf' rest of
             (frames', buf'') \<Rightarrow> (frames @ frames', buf'')))"

section \<open>Python values\<close>

text \<open>
  \<open>json.loads\<close> and \<open>json.dumps\<close> belong to the Python library. A decoded
  message is a \<open>json\<close> value; the decoder itself is a parameter \<open>loads\<close> of the
  model, \<open>None\<close> where \<open>payload.decode()\<close> or \<open>json.loads\<close> raises. JSON
  numbers with a fraction or an exponent (Python floats) are left out of the
  model. An object keeps its members as an association list, first binding of
  a key first.
\<close>

datatype json =
    JNull
  | JBool bool
  | JInt int
  | JStr string
  | JArr "json list"
  | JObj "(string \<times> json) list"

text \<open>\<open>str.encode()\<close> on ASCII text: one byte per character.\<close>

definition encode :: "string \<Rightarrow> bytes" where
  "encode s = map (\<lambda>c. word_of_nat (of_char c)) s"

text \<open>
  \<open>json.dumps({key: value})\<close> for a string value that needs no escaping (the
  error reasons of the source and the hexadecimal session identifiers).
\<close>

definition json_dumps :: "string \<Rightarrow> string \<Rightarrow> string" where
  \<open>json_dumps key val = ''{"'' @ key @ ''": "'' @ val @ ''"}''\<close>

text \<open>Substring test, Python's \<open>needle in text\<close> on two strings.\<close>

fun str_contains :: "string \<Rightarrow> string \<Rightarrow> bool" where
  "str_contains needle [] = (needle = [])"
| "str_contains needle (c # cs) =
     (take (length needle) (c # cs) = needle \<or> str_contains needle cs)"

text \<open>
  \<open>key in msg\<close>: membership among the keys of a dict, among the elements of a
  list, substring of a string; any other value is not iterable.
\<close>

fun py_in :: "string \<Rightarrow> json \<Rightarrow> exc + bool" where
  "py_in key (JObj kvs) = Inr (key \<in> set (map fst kvs))"
| "py_in key (JArr xs) = Inr (JStr key \<in> set xs)"
| "py_in key (JStr s) = Inr (str_contains key s)"
| "py_in key _ = Inl TypeError"

text \<open>\<open>msg[key]\<close> with a string key.\<close>

fun py_getitem :: "json \<Rightarrow> string \<Rightarrow> exc + json" where
  "py_getitem (JObj kvs) key =
     (case map_of kvs key of None \<Rightarrow> Inl KeyError | Some v \<Rightarrow> Inr v)"
| "py_getitem _ key = Inl TypeError"

text \<open>\<open>msg.get(key)\<close>: \<open>None\<close> (here \<open>JNull\<close>) for an absent key; only a dict has \<open>get\<close>.\<close>

fun py_get :: "json \<Rightarrow> string \<Rightarrow> exc + json" where
  "py_get (JObj kvs) key =
     (case map_of kvs key of None \<Rightarrow> Inr JNull | Some v \<Rightarrow> Inr v)"
| "py_get _ key = Inl AttributeError"

text \<open>
  A value used as a number: an \<open>int\<close>, or a \<open>bool\<close> (a subclass of \<open>int\<close>).
  Ordering or subtracting an \<open>int\<close> and anything else raises \<open>TypeError\<close>.
\<close>

fun py_int :: "json \<Rightarrow> exc + int" where
  "py_int (JInt n) = Inr n"
| "py_int (JBool b) = Inr (if b then 1 else 0)"
| "py_int _ = Inl TypeError"

text \<open>\<open>chunk[skip:]\<close>: a negative start counts from the end and is clamped at 0.\<close>

definition slice_from :: "int \<Rightarrow> 'a list \<Rightarrow> 'a list" where
  "slice_from skip xs =
     (if 0 \<le> skip then drop (nat skip) xs
      else drop (nat (int (length xs) + skip)) xs)"

section \<open>Sessions\<close>

text \<open>
  Stream readers and writers are named by numbers. What a coroutine does to
  the outside is the list of its events, in order: a write (with its drain),
  a close, a task handed to the event loop. Writes and closes are taken to
  succeed. Clock readings are integers.
\<close>

datatype task =
    ReadMud string
  | ReadClient string nat

datatype event =
    Write nat bytes
  | Close nat
  | CreateTask task

record session =
  session_id :: string
  buffer :: "bytes list"
  ack_offset :: json
  total_bytes :: int
  client_writer :: "nat option"
  mud_reader :: "nat option"
  mud_writer :: "nat option"
  last_active :: int
  mud_task :: bool

text \<open>\<open>Session.__init__\<close>.\<close>

definition Session :: "string \<Rightarrow> int \<Rightarrow> session" where
  "Session sid now =
     \<lparr>session_id = sid, buffer = [], ack_offset = JInt 0, total_bytes = 0,
      client_writer = None, mud_reader = None, mud_writer = None,
      last_active = now, mud_task = False\<rparr>"

text \<open>\<open>sum(len(chunk) for chunk in self.buffer)\<close>.\<close>

definition buffered :: "bytes list \<Rightarrow> nat" where
  "buffered buf = sum_list (map length buf)"

text \<open>The offset of the first retained byte, as \<open>attach_client\<close> and \<open>_trim_buffer\<close> compute it.\<close>

definition window_start :: "session \<Rightarrow> int" where
  "window_start s = total_bytes s - int (buffered (buffer s))"

text \<open>
  The eviction loop of \<open>_append_buffer\<close>: \<open>popleft\<close> while the retained bytes
  exceed the limit. An empty deque holds 0 bytes, so the loop stops there.
\<close>

fun evict :: "bytes list \<Rightarrow> bytes list" where
  "evict [] = []"
| "evict (chunk # rest) =
     (if BUFFER_LIMIT < buffered (chunk # rest) then evict rest else chunk # rest)"

definition append_buffer :: "bytes \<Rightarrow> session \<Rightarrow> session" where
  "append_buffer data s =
     s\<lparr>total_bytes := total_bytes s + int (length data),
       buffer := evict (buffer s @ [data])\<rparr>"

text \<open>
  \<open>_send_to_client\<close>: nothing without a client writer; otherwise the frame is
  packed and written.
\<close>

definition send_to_client :: "int \<Rightarrow> bytes \<Rightarrow> session \<Rightarrow> exc option \<times> event list" where
  "send_to_client frame_type data s =
     (case client_writer s of
        None \<Rightarrow> (None, [])
      | Some w \<Rightarrow>
          (case pack_frame frame_type data of
             Inl e \<Rightarrow> (Some e, [])
           | Inr frame \<Rightarrow> (None, [Write w frame])))"

text \<open>
  \<open>_handle_mud_disconnect\<close>: an exception of the notification is swallowed, the
  client writer is closed but stays in the session, the upstream writer is
  closed and forgotten.
\<close>

definition handle_mud_disconnect :: "string \<Rightarrow> session \<Rightarrow> session \<times> event list" where
  "handle_mud_disconnect error s =
     (let notify =
            (case client_writer s of
               None \<Rightarrow> []
             | Some w \<Rightarrow>
                 snd (send_to_client TYPE_CTRL (encode (json_dumps ''error'' error)) s)
                 @ [Close w])
      in case mud_writer s of
           None \<Rightarrow> (s, notify)
         | Some m \<Rightarrow> (s\<lparr>mud_writer := None\<rparr>, notify @ [Close m]))"

text \<open>
  The loop of \<open>_trim_buffer\<close>. The comparison with \<open>ack_offset\<close> raises for a
  value that is no number; the chunks dropped before that stay dropped.
\<close>

fun trim_loop :: "json \<Rightarrow> int \<Rightarrow> bytes list \<Rightarrow> exc option \<times> bytes list" where
  "trim_loop ack current_offset [] = (None, [])"
| "trim_loop ack current_offset (chunk # rest) =
     (case py_int ack of
        Inl e \<Rightarrow> (Some e, chunk # rest)
      | Inr a \<Rightarrow>
          if current_offset + int (length chunk) \<le> a
          then trim_loop ack (current_offset + int (length chunk)) rest
          else (None, chunk # rest))"

definition trim_buffer :: "session \<Rightarrow> exc option \<times> session" where
  "trim_buffer s =
     (case trim_loop (ack_offset s) (window_start s) (buffer s) of
        (e, buf) \<Rightarrow> (e, s\<lparr>buffer := buf\<rparr>))"

text \<open>
  \<open>_handle_control\<close>. Only the decoding is inside the \<open>try\<close>; a payload that
  does not decode returns at once, before \<open>last_active\<close> is touched.
\<close>

definition handle_control ::
  "(bytes \<Rightarrow> json option) \<Rightarrow> int \<Rightarrow> bytes \<Rightarrow> session \<Rightarrow> exc option \<times> session" where
  "handle_control loads now payload s =
     (case loads payload of
        None \<Rightarrow> (None, s)
      | Some msg \<Rightarrow>
          (case py_in ''ack'' msg of
             Inl e \<Rightarrow> (Some e, s)
           | Inr False \<Rightarrow> (None, s\<lparr>last_active := now\<rparr>)
           | Inr True \<Rightarrow>
               (case py_getitem msg ''ack'' of
                  Inl e \<Rightarrow> (Some e, s)
                | Inr v \<Rightarrow>
                    (case trim_buffer (s\<lparr>ack_offset := v\<rparr>) of
                       (Some e, s') \<Rightarrow> (Some e, s')
                     | (None, s') \<Rightarrow> (None, s'\<lparr>last_active := now\<rparr>)))))"

text \<open>
  The replay of \<open>attach_client\<close> from an offset: chunks are passed over while
  \<open>skip\<close> covers them, the next chunk is sent from \<open>skip\<close> on, and \<open>skip\<close> is 0
  from then on.
\<close>

fun replay_from :: "session \<Rightarrow> int \<Rightarrow> bytes list \<Rightarrow> exc option \<times> event list" where
  "replay_from s skip [] = (None, [])"
| "replay_from s skip (chunk # rest) =
     (if int (length chunk) \<le> skip then replay_from s (skip - int (length chunk)) rest
      else
        (case send_to_client TYPE_DATA (slice_from skip chunk) s of
           (Some e, ev) \<Rightarrow> (Some e, ev)
         | (None, ev) \<Rightarrow>
             (case replay_from s 0 rest of (e, ev') \<Rightarrow> (e, ev @ ev'))))"

text \<open>The full replay, when no offset came with the handshake.\<close>

fun replay_all :: "session \<Rightarrow> bytes list \<Rightarrow> exc option \<times> event list" where
  "replay_all s [] = (None, [])"
| "replay_all s (chunk # rest) =
     (case send_to_client TYPE_DATA chunk s of
        (Some e, ev) \<Rightarrow> (Some e, ev)
      | (None, ev) \<Rightarrow>
          (case replay_all s rest of (e, ev') \<Rightarrow> (e, ev @ ev')))"

text \<open>
  The replay branch of \<open>attach_client\<close>. \<open>resume_offset\<close> is \<open>msg.get("ack")\<close> of
  the handshake, \<open>JNull\<close> standing for Python's \<open>None\<close>. The \<open>else\<close> of the source
  belongs to \<open>if resume_offset is not None\<close>: an offset at or beyond
  \<open>total_bytes\<close> replays nothing.
\<close>

definition replay :: "json \<Rightarrow> session \<Rightarrow> exc option \<times> event list" where
  "replay resume_offset s =
     (if resume_offset \<noteq> JNull then
        (case py_int resume_offset of
           Inl e \<Rightarrow> (Some e, [])
         | Inr offset \<Rightarrow>
             if offset < total_bytes s
             then replay_from s (offset - window_start s) (buffer s)
             else (None, []))
      else replay_all s (buffer s))"

definition attach_client ::
  "nat \<Rightarrow> nat \<Rightarrow> json \<Rightarrow> int \<Rightarrow> session \<Rightarrow> exc option \<times> session \<times> event list" where
  "attach_client reader writer resume_offset now s0 =
     (let s = s0\<lparr>client_writer := Some writer, last_active := now\<rparr> in
      if mud_reader s = None \<or> mud_writer s = None then
        (case handle_mud_disconnect ''Connection refused'' s of
           (s', ev) \<Rightarrow> (None, s', ev))
      else
        (case send_to_client TYPE_CTRL (encode (json_dumps ''session'' (session_id s))) s of
           (Some e, ev) \<Rightarrow> (Some e, s, ev)
         | (None, ev) \<Rightarrow>
             (case replay resume_offset s of
                (Some e, ev') \<Rightarrow> (Some e, s, ev @ ev')
              | (None, ev') \<Rightarrow>
                  (None, s, ev @ ev' @ [CreateTask (ReadClient (session_id s) reader)]))))"

text \<open>
  The frames of one read in \<open>_read_client\<close>: a Data payload is written to the
  upstream writer, a Control payload goes to \<open>_handle_control\<close>, any other
  kind is passed over.
\<close>

fun handle_frames ::
  "(bytes \<Rightarrow> json option) \<Rightarrow> int \<Rightarrow> (int \<times> bytes) list \<Rightarrow> session
   \<Rightarrow> exc option \<times> session \<times> event list" where
  "handle_frames loads now [] s = (None, s, [])"
| "handle_frames loads now ((frame_type, payload) # rest) s =
     (if frame_type = TYPE_DATA then
        (case mud_writer s of
           None \<Rightarrow> (Some AttributeError, s, [])
         | Some m \<Rightarrow>
             (case handle_frames loads now rest s of
                (e, s', ev) \<Rightarrow> (e, s', Write m payload # ev)))
      else if frame_type = TYPE_CTRL then
        (case handle_control loads now payload s of
           (Some e, s') \<Rightarrow> (Some e, s', [])
         | (None, s') \<Rightarrow> handle_frames loads now rest s')
      else handle_frames loads now rest s)"

text \<open>
  \<open>_read_client\<close> on the reads of its connection, each with the clock reading
  of its iteration; an empty read is the end of the stream. The bytearray of
  the loop starts empty.
\<close>

fun read_client_loop ::
  "(bytes \<Rightarrow> json option) \<Rightarrow> bytes \<Rightarrow> (bytes \<times> int) list \<Rightarrow> session
   \<Rightarrow> exc option \<times> session \<times> event list" where
  "read_client_loop loads buf [] s = (None, s, [])"
| "read_client_loop loads buf ((data, now) # reads) s =
     (if data = [] then (None, s\<lparr>client_writer := None\<rparr>, [])
      else
        (case unpack_frames (buf @ data) of
           (frames, buf') \<Rightarrow>
             (case handle_frames loads now frames s of
                (Some e, s', ev) \<Rightarrow> (Some e, s', ev)
              | (None, s', ev) \<Rightarrow>
                  (case read_client_loop loads buf' reads s' of
                     (e, s'', ev') \<Rightarrow> (e, s'', ev @ ev')))))"

definition read_client ::
  "(bytes \<Rightarrow> json option) \<Rightarrow> (bytes \<times> int) list \<Rightarrow> session
   \<Rightarrow> exc option \<times> session \<times> event list" where
  "read_client loads reads s = read_client_loop loads [] reads s"

text \<open>
  \<open>_read_mud\<close> on the results of its reads: an exception of the read ends the
  task, an empty read is the end of the stream, anything else is buffered and
  forwarded. Without an upstream reader the first read already fails.
\<close>

fun read_mud :: "(exc + bytes) list \<Rightarrow> session \<Rightarrow> exc option \<times> session \<times> event list" where
  "read_mud [] s = (None, s, [])"
| "read_mud (r # reads) s =
     (case mud_reader s of
        None \<Rightarrow> (Some AttributeError, s, [])
      | Some _ \<Rightarrow>
          (case r of
             Inl e \<Rightarrow> (Some e, s, [])
           | Inr data \<Rightarrow>
               if data = [] then
                 (case handle_mud_disconnect ''Connection lost'' s of
                    (s', ev) \<Rightarrow> (None, s', ev))
               else
                 (let s1 = append_buffer data s in
                  case send_to_client TYPE_DATA data s1 of
                    (Some e, ev) \<Rightarrow> (Some e, s1, ev)
                  | (None, ev) \<Rightarrow>
                      (case read_mud reads s1 of
                         (e, s2, ev') \<Rightarrow> (e, s2, ev @ ev')))))"

section \<open>Registry and handshake\<close>

text \<open>
  The global \<open>sessions\<close> dict maps a token to its session. A task works on the
  session its token is registered for.
\<close>

type_synonym registry = "string \<rightharpoonup> session"

text \<open>
  What \<open>asyncio.open_connection\<close> does: a reader and a writer, a
  \<open>ConnectionRefusedError\<close>, or another exception.
\<close>

datatype dial =
    Connected nat nat
  | Refused
  | Failed exc

text \<open>
  What the handler takes from outside: the JSON decoder, the value of
  \<open>uuid.uuid4().hex\<close>, the outcome of the dial and the clock.
\<close>

record env =
  loads :: "bytes \<Rightarrow> json option"
  uuid4_hex :: string
  open_connection :: dial
  now :: int

text \<open>
  \<open>connect_to_mud\<close>: only a refused connection is caught, and the upstream
  task is created whether or not there is a reader for it.
\<close>

definition connect_to_mud :: "dial \<Rightarrow> session \<Rightarrow> exc option \<times> session \<times> event list" where
  "connect_to_mud d s =
     (case d of
        Failed e \<Rightarrow> (Some e, s, [])
      | Refused \<Rightarrow>
          (None, s\<lparr>mud_task := True\<rparr>, [CreateTask (ReadMud (session_id s))])
      | Connected r w \<Rightarrow>
          (None, s\<lparr>mud_reader := Some r, mud_writer := Some w, mud_task := True\<rparr>,
           [CreateTask (ReadMud (session_id s))]))"

text \<open>
  \<open>sessions.get(token)\<close>: a list or a dict is unhashable; any other value that
  is no string is the key of no session.
\<close>

fun sessions_get :: "registry \<Rightarrow> json \<Rightarrow> exc + (string \<times> session) option" where
  "sessions_get sessions (JStr token) =
     Inr (case sessions token of None \<Rightarrow> None | Some s \<Rightarrow> Some (token, s))"
| "sessions_get sessions (JArr xs) = Inl TypeError"
| "sessions_get sessions (JObj kvs) = Inl TypeError"
| "sessions_get sessions _ = Inr None"

text \<open>Writing one error frame and closing, as both rejections of \<open>handle_client\<close> do.\<close>

definition reject :: "registry \<Rightarrow> nat \<Rightarrow> bytes \<Rightarrow> exc option \<times> registry \<times> event list" where
  "reject sessions writer message =
     (case pack_frame TYPE_CTRL message of
        Inl e \<Rightarrow> (Some e, sessions, [])
      | Inr frame \<Rightarrow> (None, sessions, [Write writer frame, Close writer]))"

text \<open>
  \<open>handle_client\<close> on the bytes of its one read. Of the decoded frames only
  the first is looked at; the frames after it and the rest of the bytearray are
  locals that end with the call.
\<close>

definition handle_client ::
  "env \<Rightarrow> registry \<Rightarrow> nat \<Rightarrow> nat \<Rightarrow> bytes \<Rightarrow> exc option \<times> registry \<times> event list" where
  \<open>handle_client env sessions reader writer data =
     (case fst (unpack_frames data) of
        [] \<Rightarrow> reject sessions writer (encode ''{"error":"Missing control frame"}'')
      | (frame_type, payload) # _ \<Rightarrow>
          if frame_type \<noteq> TYPE_CTRL
          then reject sessions writer (encode ''{"error":"Missing control frame"}'')
          else
            (case loads env payload of
               None \<Rightarrow> (Some JSONDecodeError, sessions, [])
             | Some msg \<Rightarrow>
                 (case py_in ''resume'' msg of
                    Inl e \<Rightarrow> (Some e, sessions, [])
                  | Inr True \<Rightarrow>
                      (case py_getitem msg ''resume'' of
                         Inl e \<Rightarrow> (Some e, sessions, [])
                       | Inr token \<Rightarrow>
                           (case sessions_get sessions token of
                              Inl e \<Rightarrow> (Some e, sessions, [])
                            | Inr None \<Rightarrow>
                                reject sessions writer (encode ''{"error":"Invalid session"}'')
                            | Inr (Some (key, session)) \<Rightarrow>
                                (case py_get msg ''ack'' of
                                   Inl e \<Rightarrow> (Some e, sessions, [])
                                 | Inr resume_offset \<Rightarrow>
                                     (case attach_client reader writer resume_offset (now env)
                                             session of
                                        (e, s', ev) \<Rightarrow> (e, sessions(key \<mapsto> s'), ev)))))
                  | Inr False \<Rightarrow>
                      (let session_id = uuid4_hex env;
                           session = Session session_id (now env);
                           sessions' = sessions(session_id \<mapsto> session)
                       in case connect_to_mud (open_connection env) session of
                            (Some e, s1, ev) \<Rightarrow> (Some e, sessions'(session_id \<mapsto> s1), ev)
                          | (None, s1, ev) \<Rightarrow>
                              (case attach_client reader writer JNull (now env) s1 of
                                 (e, s2, ev') \<Rightarrow>
                                   (e, sessions'(session_id \<mapsto> s2), ev @ ev'))))))\<close>

text \<open>The upstream task of the session registered under a token, on the results of its reads.\<close>

definition run_read_mud ::
  "string \<Rightarrow> (exc + bytes) list \<Rightarrow> registry \<Rightarrow> exc option \<times> registry \<times> event list" where
  "run_read_mud token reads sessions =
     (case sessions token of
        None \<Rightarrow> (None, sessions, [])
      | Some s \<Rightarrow>
          (case read_mud reads s of
             (e, s', ev) \<Rightarrow> (e, sessions(token \<mapsto> s'), ev)))"

text \<open>
  A session holds a suffix of the upstream stream: \<open>total_bytes\<close> counts the
  stream and the chunks of the buffer, joined, are its last bytes.
\<close>

definition holds_suffix :: "bytes \<Rightarrow> session \<Rightarrow> bool" where
  "holds_suffix stream s \<longleftrightarrow>
     total_bytes s = int (length stream) \<and>
     buffered (buffer s) \<le> length stream \<and>
     concat (buffer s) = drop (length stream - buffered (buffer s)) stream"

text \<open>The payloads of the Data frames written to a writer, in order.\<close>

fun data_written :: "nat \<Rightarrow> event list \<Rightarrow> bytes list" where
  "data_written w [] = []"
| "data_written w (Write w' frame # ev) =
     (if w' = w \<and> 3 \<le> length frame \<and> uint (frame ! 0) = TYPE_DATA
      then drop 3 frame # data_written w ev
      else data_written w ev)"
| "data_written w (_ # ev) = data_written w ev"

text \<open>
  What construction gives every session: an identifier of at most 32
  characters (\<open>uuid4().hex\<close>), and chunks that are non-empty reads of at most
  1024 bytes.
\<close>

definition well_formed :: "session \<Rightarrow> bool" where
  "well_formed s \<longleftrightarrow>
     length (session_id s) \<le> 32 \<and>
     (\<forall>chunk \<in> set (buffer s). 1 \<le> length chunk \<and> length chunk \<le> 1024)"

text \<open>The writers that a list of events writes to, in order.\<close>

fun write_targets :: "event list \<Rightarrow> nat list" where
  "write_targets [] = []"
| "write_targets (Write w frame # ev) = w # write_targets ev"
| "write_targets (_ # ev) = write_targets ev"

section \<open>Fixtures for the examples\<close>

text \<open>\<open>json.loads\<close> on the payloads that the examples below use.\<close>

definition example_loads :: "bytes \<Rightarrow> json option" where
  \<open>example_loads payload =
     (if payload = encode ''{"ack": 50}'' then Some (JObj [(''ack'', JInt 50)])
      else if payload = encode ''{"ack": 30}'' then Some (JObj [(''ack'', JInt 30)])
      else if payload = encode ''{"ack": 15}'' then Some (JObj [(''ack'', JInt 15)])
      else if payload = encode ''{"ack": 4}'' then Some (JObj [(''ack'', JInt 4)])
      else if payload = encode ''{"new": true}'' then Some (JObj [(''new'', JBool True)])
      else if payload = encode ''{}'' then Some (JObj [])
      else if payload = encode ''{"resume": "t", "ack": 2}''
        then Some (JObj [(''resume'', JStr ''t''), (''ack'', JInt 2)])
      else if payload = encode ''{"resume": "t", "ack": 5}''
        then Some (JObj [(''resume'', JStr ''t''), (''ack'', JInt 5)])
      else None)\<close>

text \<open>An environment whose dial succeeds with reader 1 and writer 2, and one whose dial is refused.\<close>

definition example_env :: env where
  "example_env =
     \<lparr>loads = example_loads, uuid4_hex = ''0a1b'', open_connection = Connected 1 2, now = 100\<rparr>"

definition refusing_env :: env where
  "refusing_env = example_env\<lparr>open_connection := Refused\<rparr>"

text \<open>A session right after a successful dial.\<close>

definition connected_session :: session where
  "connected_session =
     (Session ''t'' 0)\<lparr>mud_reader := Some 1, mud_writer := Some 2, mud_task := True\<rparr>"

text \<open>
  The same session after the upstream sent ten bytes in three reads and the
  client acknowledged four of them: the window is \<open>[4, 10)\<close>.
\<close>

definition trimmed_session :: session where
  \<open>trimmed_session =
     snd (handle_control example_loads 50 (encode ''{"ack": 4}'')
            (fst (snd (read_mud [Inr [0, 1, 2, 3], Inr [4, 5, 6], Inr [7, 8, 9]]
                         connected_session))))\<close>

text \<open>The session after the upstream then closed: it is still there, without its upstream writer.\<close>

definition orphaned_session :: session where
  "orphaned_session = fst (snd (read_mud [Inr []] trimmed_session))"
section \<open>Properties of the codec\<close>

declare unpack_loop.simps [simp del]

lemma unpack_loop_prepend:
  "unpack_loop (acc @ xs) data = (acc @ fst (unpack_loop xs data), snd (unpack_loop xs data))"
proof (induction xs data arbitrary: acc rule: unpack_loop.induct)
  case (1 frames data)
  show ?case
  proof (cases "3 \<le> length data")
    case False
    then show ?thesis by (simp add: unpack_loop.simps [of _ data])
  next
    case True
    obtain ft len where h: "struct_unpack_BH (data ! 0) (data ! 1) (data ! 2) = (ft, len)"
      by (cases "struct_unpack_BH (data ! 0) (data ! 1) (data ! 2)")
    show ?thesis
    proof (cases "length data < 3 + len")
      case True
      with \<open>3 \<le> length data\<close> h show ?thesis by (simp add: unpack_loop.simps [of _ data])
    next
      case False
      note ih = "1.IH" [OF \<open>3 \<le> length data\<close> h [symmetric] False]
      show ?thesis
        using True h False ih [of acc]
        by (simp add: unpack_loop.simps [of _ data])
    qed
  qed
qed

lemma unpack_loop_acc:
  "unpack_loop acc data = (acc @ fst (unpack_frames data), snd (unpack_frames data))"
  using unpack_loop_prepend [of acc "[]" data] by (simp add: unpack_frames_def)

lemma unpack_frames_short:
  "length data < 3 \<Longrightarrow> unpack_frames data = ([], data)"
  by (simp add: unpack_frames_def unpack_loop.simps [of _ data])

lemma unpack_frames_partial:
  "3 \<le> length data \<Longrightarrow> struct_unpack_BH (data ! 0) (data ! 1) (data ! 2) = (ft, len) \<Longrightarrow>
   length data < 3 + len \<Longrightarrow> unpack_frames data = ([], data)"
  by (simp add: unpack_frames_def unpack_loop.simps [of _ data])

lemma unpack_frames_step:
  "3 \<le> length data \<Longrightarrow> struct_unpack_BH (data ! 0) (data ! 1) (data ! 2) = (ft, len) \<Longrightarrow>
   3 + len \<le> length data \<Longrightarrow>
   unpack_frames data =
     ((ft, take len (drop 3 data)) # fst (unpack_frames (drop (3 + len) data)),
      snd (unpack_frames (drop (3 + len) data)))"
  using unpack_loop_acc [of "[(ft, take len (drop 3 data))]" "drop (3 + len) data"]
  by (simp add: unpack_frames_def unpack_loop.simps [of "[]" data])

lemma struct_unpack_pack:
  "struct_pack_BH k n = Inr [a, b, c] \<Longrightarrow> struct_unpack_BH a b c = (k, n)"
  by (auto simp: struct_pack_BH_def struct_unpack_BH_def uint_word_of_int unat_of_nat
           split: if_splits)

lemma pack_frame_Inr:
  "pack_frame k p = Inr e \<Longrightarrow>
   0 \<le> k \<and> k \<le> 255 \<and> length p \<le> 65535 \<and>
   e = [word_of_int k, word_of_nat (length p div 256), word_of_nat (length p mod 256)] @ p"
  by (auto simp: pack_frame_def struct_pack_BH_def split: if_splits)

lemma drop_3_plus: "drop (3 + n) (a # b # c # xs) = drop n xs"
  by (simp add: numeral_3_eq_3)

lemma take_drop_3: "take n (drop 3 (a # b # c # xs)) = take n xs"
  by (simp add: numeral_3_eq_3)

lemma unpack_frames_pack:
  assumes "pack_frame k p = Inr e"
  shows "unpack_frames (e @ rest) = ((k, p) # fst (unpack_frames rest), snd (unpack_frames rest))"
proof -
  from assms obtain a b c where e: "e = [a, b, c] @ p" and h: "struct_pack_BH k (length p) = Inr [a, b, c]"
    by (auto simp: pack_frame_def struct_pack_BH_def split: if_splits)
  have u: "struct_unpack_BH ((e @ rest) ! 0) ((e @ rest) ! 1) ((e @ rest) ! 2) = (k, length p)"
    using struct_unpack_pack [OF h] by (simp add: e)
  show ?thesis
    using unpack_frames_step [OF _ u] by (simp add: e drop_3_plus take_drop_3)
qed

lemma unpack_frames_remainder:
  "unpack_frames (snd (unpack_frames data)) = ([], snd (unpack_frames data))"
proof (induction "length data" arbitrary: data rule: less_induct)
  case less
  show ?case
  proof (cases "3 \<le> length data")
    case False
    then show ?thesis by (simp add: unpack_frames_short)
  next
    case True
    obtain ft len where h: "struct_unpack_BH (data ! 0) (data ! 1) (data ! 2) = (ft, len)"
      by (cases "struct_unpack_BH (data ! 0) (data ! 1) (data ! 2)")
    show ?thesis
    proof (cases "length data < 3 + len")
      case True
      then show ?thesis using unpack_frames_partial [OF \<open>3 \<le> length data\<close> h] by simp
    next
      case False
      then have "length (drop (3 + len) data) < length data" using \<open>3 \<le> length data\<close> by simp
      from less [OF this] show ?thesis
        using unpack_frames_step [OF \<open>3 \<le> length data\<close> h] False by simp
    qed
  qed
qed

lemma unpack_frames_append:
  "unpack_frames (a @ b) =
     (fst (unpack_frames a) @ fst (unpack_frames (snd (unpack_frames a) @ b)),
      snd (unpack_frames (snd (unpack_frames a) @ b)))"
proof (induction "length a" arbitrary: a rule: less_induct)
  case less
  show ?case
  proof (cases "3 \<le> length a")
    case False
    then show ?thesis by (simp add: unpack_frames_short)
  next
    case True
    obtain ft len where h: "struct_unpack_BH (a ! 0) (a ! 1) (a ! 2) = (ft, len)"
      by (cases "struct_unpack_BH (a ! 0) (a ! 1) (a ! 2)")
    show ?thesis
    proof (cases "length a < 3 + len")
      case True
      then show ?thesis using unpack_frames_partial [OF \<open>3 \<le> length a\<close> h] by simp
    next
      case False
      then have lt: "length (drop (3 + len) a) < length a" using \<open>3 \<le> length a\<close> by simp
      have hab: "struct_unpack_BH ((a @ b) ! 0) ((a @ b) ! 1) ((a @ b) ! 2) = (ft, len)"
        using h True by (auto simp: nth_append)
      have sa: "unpack_frames a =
         ((ft, take len (drop 3 a)) # fst (unpack_frames (drop (3 + len) a)),
          snd (unpack_frames (drop (3 + len) a)))"
        using unpack_frames_step [OF True h] False by simp
      have sab: "unpack_frames (a @ b) =
         ((ft, take len (drop 3 a)) # fst (unpack_frames (drop (3 + len) a @ b)),
          snd (unpack_frames (drop (3 + len) a @ b)))"
        using unpack_frames_step [OF _ hab] True False by simp
      show ?thesis
        unfolding sab sa using less [OF lt] by simp
    qed
  qed
qed

lemma decode_chunks_whole:
  "unpack_frames buf = ([], buf) \<Longrightarrow>
   decode_chunks buf chunks = unpack_frames (buf @ concat chunks)"
proof (induction chunks arbitrary: buf)
  case Nil
  then show ?case by simp
next
  case (Cons c cs)
  obtain fs r where u: "unpack_frames (buf @ c) = (fs, r)"
    by (cases "unpack_frames (buf @ c)")
  have rr: "unpack_frames r = ([], r)"
    using unpack_frames_remainder [of "buf @ c"] u by simp
  have "unpack_frames ((buf @ c) @ concat cs) =
        (fs @ fst (unpack_frames (r @ concat cs)), snd (unpack_frames (r @ concat cs)))"
    by (subst unpack_frames_append) (simp add: u)
  then show ?case
    using Cons.IH [OF rr] u by (simp add: case_prod_unfold)
qed

lemma unpack_frames_encoded:
  "list_all2 (\<lambda>f e. pack_frame (fst f) (snd f) = Inr e) fs es \<Longrightarrow>
   unpack_frames (concat es @ rest) = (fs @ fst (unpack_frames rest), snd (unpack_frames rest))"
proof (induction fs es rule: list_all2_induct)
  case Nil
  then show ?case by simp
next
  case (Cons f fs e es)
  then show ?case
    using unpack_frames_pack [of "fst f" "snd f" e "concat es @ rest"] by simp
qed

text \<open>
  Claim C8. For a Data or Control kind and a payload of at most 65535 bytes,
  \<open>pack_frame\<close> succeeds, and \<open>unpack_frames\<close> on its result returns exactly
  the one frame (kind, payload) and leaves the bytearray empty.
\<close>

theorem pack_unpack_roundtrip:
  assumes "kind = TYPE_DATA \<or> kind = TYPE_CTRL" and "length payload \<le> 65535"
  shows "\<exists>e. pack_frame kind payload = Inr e \<and> unpack_frames e = ([(kind, payload)], [])"
proof -
  from assms obtain e where e: "pack_frame kind payload = Inr e"
    by (auto simp: pack_frame_def struct_pack_BH_def TYPE_DATA_def TYPE_CTRL_def)
  from unpack_frames_pack [OF e, of "[]"] have "unpack_frames e = ([(kind, payload)], [])"
    by (simp add: unpack_frames_short)
  with e show ?thesis by blast
qed

theorem pack_unpack_roundtrip_witness:
  "(TYPE_CTRL = TYPE_DATA \<or> TYPE_CTRL = TYPE_CTRL) \<and> length [123, 125 :: byte] \<le> 65535 \<and>
   pack_frame TYPE_CTRL [123, 125] = Inr [1, 0, 2, 123, 125] \<and>
   unpack_frames [1, 0, 2, 123, 125] = ([(TYPE_CTRL, [123, 125])], [])"
  using pack_unpack_roundtrip [of TYPE_CTRL "[123, 125]"]
  by (simp add: pack_frame_def struct_pack_BH_def TYPE_CTRL_def)

text \<open>
  Claim C9. Take the encodings of N valid frames, followed by any partial frame
  (fewer than three header bytes, or a payload shorter than the header
  declares), split into chunks in any way. Decoding chunk by chunk, carrying the
  bytearray from one call to the next, gives the same N frames in the same order
  as decoding the whole byte string at once, and the partial frame is what is
  left in the bytearray.
\<close>

theorem incremental_decode:
  assumes "list_all2 (\<lambda>f e. pack_frame (fst f) (snd f) = Inr e) fs es"
    and "concat chunks = concat es @ partial"
    and "length partial < 3 \<or>
         length partial < 3 + snd (struct_unpack_BH (partial ! 0) (partial ! 1) (partial ! 2))"
  shows "decode_chunks [] chunks = (fs, partial) \<and>
         unpack_frames (concat chunks) = (fs, partial)"
proof -
  have p: "unpack_frames partial = ([], partial)"
  proof (cases "length partial < 3")
    case True
    then show ?thesis by (rule unpack_frames_short)
  next
    case False
    with assms(3) show ?thesis
      using unpack_frames_partial [of partial "fst (struct_unpack_BH (partial ! 0) (partial ! 1) (partial ! 2))"
          "snd (struct_unpack_BH (partial ! 0) (partial ! 1) (partial ! 2))"]
      by simp
  qed
  have w: "unpack_frames (concat chunks) = (fs, partial)"
    using unpack_frames_encoded [OF assms(1), of partial] p assms(2) by simp
  have "decode_chunks [] chunks = unpack_frames ([] @ concat chunks)"
    by (rule decode_chunks_whole) (simp add: unpack_frames_short)
  with w show ?thesis by simp
qed

theorem incremental_decode_witness:
  "decode_chunks [] [[0, 0], [1, 65, 1, 0, 2], [123], [125, 0, 0]] =
     ([(0, [65]), (1, [123, 125])], [0, 0]) \<and>
   unpack_frames (concat [[0, 0], [1, 65, 1, 0, 2], [123], [125, 0, 0 :: byte]]) =
     ([(0, [65]), (1, [123, 125])], [0, 0])"
  using incremental_decode [of "[(0, [65]), (1, [123, 125])]"
                               "[[0, 0, 1, 65], [1, 0, 2, 123, 125]]"
                               "[[0, 0], [1, 65, 1, 0, 2], [123], [125, 0, 0]]" "[0, 0]"]
  by (simp add: pack_frame_def struct_pack_BH_def)

section \<open>Properties of the session\<close>

lemma trimmed_session_eq:
  "trimmed_session =
     \<lparr>session_id = ''t'', buffer = [[4, 5, 6], [7, 8, 9]], ack_offset = JInt 4,
      total_bytes = 10, client_writer = None, mud_reader = Some 1, mud_writer = Some 2,
      last_active = 50, mud_task = True\<rparr>"
  by (simp add: trimmed_session_def connected_session_def Session_def example_loads_def
        encode_def handle_control_def trim_buffer_def window_start_def buffered_def
        append_buffer_def send_to_client_def BUFFER_LIMIT_def)

lemma orphaned_session_eq:
  "orphaned_session =
     \<lparr>session_id = ''t'', buffer = [[4, 5, 6], [7, 8, 9]], ack_offset = JInt 4,
      total_bytes = 10, client_writer = None, mud_reader = Some 1, mud_writer = None,
      last_active = 50, mud_task = True\<rparr>"
  by (simp add: orphaned_session_def trimmed_session_eq handle_mud_disconnect_def)

text \<open>
  Claim C1, as stated, fails: \<open>_handle_control\<close> stores the received value and
  takes no maximum. After the acknowledgements 50 and 30 the offset is 30.
\<close>

theorem ack_not_monotonic:
  \<open>ack_offset (snd (handle_control example_loads 2 (encode ''{"ack": 30}'')
       (snd (handle_control example_loads 1 (encode ''{"ack": 50}'') (Session ''t'' 0)))))
   = JInt 30 \<and> JInt 30 \<noteq> JInt (max 50 30)\<close>
  by (simp add: Session_def example_loads_def encode_def handle_control_def trim_buffer_def
        window_start_def buffered_def)

text \<open>
  Claim C1, amended. For every session and every control frame whose JSON
  object binds \<open>"ack"\<close> to a value, the new \<open>ack_offset\<close> is that value,
  whatever the old one was.
\<close>

theorem handle_control_sets_ack:
  assumes "ld payload = Some (JObj kvs)" and "map_of kvs ''ack'' = Some v"
  shows "ack_offset (snd (handle_control ld t payload s)) = v"
proof -
  from assms(2) have "''ack'' \<in> set (map fst kvs)"
    by (metis domI dom_map_of_conv_image_fst image_set)
  then show ?thesis
    using assms by (simp add: handle_control_def trim_buffer_def split: prod.splits option.splits)
qed

theorem handle_control_sets_ack_witness:
  \<open>ack_offset (snd (handle_control example_loads 2 (encode ''{"ack": 30}'')
       ((Session ''t'' 0)\<lparr>ack_offset := JInt 50\<rparr>))) = JInt 30\<close>
  using handle_control_sets_ack [of example_loads \<open>encode ''{"ack": 30}''\<close>
          "[(''ack'', JInt 30)]" "JInt 30" 2 "(Session ''t'' 0)\<lparr>ack_offset := JInt 50\<rparr>"]
  by (simp add: example_loads_def encode_def)

text \<open>
  Claim C3, as stated, fails: \<open>_trim_buffer\<close> drops whole chunks only. With
  the stream \<open>0, 1, ..., 29\<close> in three chunks of ten and the acknowledgement
  15, the second chunk stays whole: the buffer holds the bytes \<open>[10, 30)\<close>,
  not \<open>[15, 30)\<close>.
\<close>

theorem trim_keeps_partly_acked_chunk:
  \<open>concat (buffer (snd (handle_control example_loads 1 (encode ''{"ack": 15}'')
      (append_buffer [20, 21, 22, 23, 24, 25, 26, 27, 28, 29]
        (append_buffer [10, 11, 12, 13, 14, 15, 16, 17, 18, 19]
          (append_buffer [0, 1, 2, 3, 4, 5, 6, 7, 8, 9] (Session ''t'' 0)))))))
   = [10, 11, 12, 13, 14, 15, 16, 17, 18, 19, 20, 21, 22, 23, 24, 25, 26, 27, 28, 29] \<and>
   [10, 11, 12, 13, 14, 15, 16, 17, 18, 19, 20, 21, 22, 23, 24, 25, 26, 27, 28, 29] \<noteq>
   drop 15 ([0, 1, 2, 3, 4, 5, 6, 7, 8, 9] @ [10, 11, 12, 13, 14, 15, 16, 17, 18, 19]
            @ [20, 21, 22, 23, 24, 25, 26, 27, 28, 29 :: byte])\<close>
  by (simp add: Session_def example_loads_def encode_def handle_control_def trim_buffer_def
        window_start_def buffered_def append_buffer_def BUFFER_LIMIT_def)

text \<open>
  Claim C3, amended. After three chunks of ten bytes and the acknowledgement
  15, the buffer is the second and the third chunk: it holds exactly the bytes
  \<open>[10, 30)\<close> of the stream, and \<open>total_bytes\<close> is 30.
\<close>

theorem trim_after_three_chunks:
  assumes "length c1 = 10" and "length c2 = 10" and "length c3 = 10"
    and "ld payload = Some (JObj [(''ack'', JInt 15)])"
    and "s = snd (handle_control ld t payload
               (append_buffer c3 (append_buffer c2 (append_buffer c1 (Session sid t0)))))"
  shows "buffer s = [c2, c3] \<and> total_bytes s = 30 \<and> window_start s = 10 \<and>
         concat (buffer s) = drop 10 (c1 @ c2 @ c3)"
  using assms
  by (simp add: Session_def handle_control_def trim_buffer_def
        window_start_def buffered_def append_buffer_def BUFFER_LIMIT_def)

theorem trim_after_three_chunks_witness:
  \<open>buffer (snd (handle_control example_loads 1 (encode ''{"ack": 15}'')
      (append_buffer (replicate 10 3) (append_buffer (replicate 10 2)
         (append_buffer (replicate 10 1) (Session ''t'' 0))))))
   = [replicate 10 2, replicate 10 3]\<close>
  using trim_after_three_chunks [of "replicate 10 1" "replicate 10 2" "replicate 10 3"
          example_loads \<open>encode ''{"ack": 15}''\<close> _ 1 "''t''" 0, OF _ _ _ _ refl]
  by (simp add: example_loads_def encode_def)

lemma pack_ctrl_short:
  "length msg \<le> 255 \<Longrightarrow>
   pack_frame TYPE_CTRL msg = Inr ([1, 0, word_of_nat (length msg)] @ msg)"
  by (simp add: pack_frame_def struct_pack_BH_def TYPE_CTRL_def)

text \<open>
  Claim C5, as stated, fails: nothing on the end-of-stream path touches the
  registry. After the upstream of an attached session closed, the token is
  still registered, for a session without upstream writer.
\<close>

theorem upstream_eof_keeps_token:
  "fst (snd (run_read_mud ''t'' [Inr []] [''t'' \<mapsto> trimmed_session\<lparr>client_writer := Some 6\<rparr>])) ''t''
   = Some (trimmed_session\<lparr>client_writer := Some 6, mud_writer := None\<rparr>)"
  by (simp add: run_read_mud_def trimmed_session_eq handle_mud_disconnect_def send_to_client_def
     split: prod.splits)

text \<open>
  Claim C5, amended. When the upstream read of a registered session returns
  the end of the stream, the session writes a Control frame with the reason
  \<open>Connection lost\<close> to the attached client, if there is one, and closes the
  client writer; it closes the upstream writer and forgets it; and the token
  stays in the registry, bound to that session.
\<close>

theorem upstream_eof:
  assumes "sessions token = Some s" and "mud_reader s \<noteq> None"
  shows "\<exists>frame.
     pack_frame TYPE_CTRL (encode (json_dumps ''error'' ''Connection lost'')) = Inr frame \<and>
     run_read_mud token [Inr []] sessions =
       (None, sessions(token \<mapsto> s\<lparr>mud_writer := None\<rparr>),
        (case client_writer s of None \<Rightarrow> [] | Some w \<Rightarrow> [Write w frame, Close w]) @
        (case mud_writer s of None \<Rightarrow> [] | Some m \<Rightarrow> [Close m]))"
proof -
  have "length (encode (json_dumps ''error'' ''Connection lost'')) \<le> 255"
    by (simp add: encode_def json_dumps_def)
  from pack_ctrl_short [OF this] obtain frame where
    f: "pack_frame TYPE_CTRL (encode (json_dumps ''error'' ''Connection lost'')) = Inr frame"
    by blast
  have "run_read_mud token [Inr []] sessions =
       (None, sessions(token \<mapsto> s\<lparr>mud_writer := None\<rparr>),
        (case client_writer s of None \<Rightarrow> [] | Some w \<Rightarrow> [Write w frame, Close w]) @
        (case mud_writer s of None \<Rightarrow> [] | Some m \<Rightarrow> [Close m]))"
    using assms f
    by (auto simp: run_read_mud_def handle_mud_disconnect_def send_to_client_def
          split: option.splits)
  with f show ?thesis by blast
qed


theorem upstream_eof_witness:
  "run_read_mud ''t'' [Inr []] [''t'' \<mapsto> trimmed_session\<lparr>client_writer := Some 6\<rparr>] =
     (None,
      [''t'' \<mapsto> trimmed_session\<lparr>client_writer := Some 6\<rparr>]
        (''t'' \<mapsto> trimmed_session\<lparr>client_writer := Some 6, mud_writer := None\<rparr>),
      [Write 6 ([1, 0, 28] @ encode (json_dumps ''error'' ''Connection lost'')), Close 6,
       Close 2])"
  using upstream_eof [of "[''t'' \<mapsto> trimmed_session\<lparr>client_writer := Some 6\<rparr>]" "''t''"
          "trimmed_session\<lparr>client_writer := Some 6\<rparr>"]
  by (auto simp: trimmed_session_eq pack_frame_def struct_pack_BH_def TYPE_CTRL_def encode_def
        json_dumps_def)

lemma frames_of_packed:
  "pack_frame k p = Inr e \<Longrightarrow> fst (unpack_frames (e @ extra)) = (k, p) # fst (unpack_frames extra)"
  by (simp add: unpack_frames_pack)

text \<open>
  Claim C6, as stated, fails: the session is registered before the dial and
  nothing removes it when the dial is refused.
\<close>

theorem refused_dial_keeps_session:
  \<open>fst (snd (handle_client refusing_env Map.empty 5 6
               ([1, 0, 13] @ encode ''{"new": true}''))) ''0a1b''
   = Some ((Session ''0a1b'' 100)\<lparr>client_writer := Some 6, mud_task := True\<rparr>)\<close>
proof -
  have p: \<open>pack_frame 1 (encode ''{"new": true}'') = Inr ([1, 0, 13] @ encode ''{"new": true}'')\<close>
    by (simp add: pack_frame_def struct_pack_BH_def encode_def)
  have u: \<open>fst (unpack_frames ([1, 0, 13] @ encode ''{"new": true}'')) =
          [(1, encode ''{"new": true}'')]\<close>
    using frames_of_packed [OF p, of "[]"] by (simp add: unpack_frames_short)
  show ?thesis
    unfolding handle_client_def u
    by (simp add: refusing_env_def example_env_def example_loads_def TYPE_CTRL_def Session_def
          connect_to_mud_def attach_client_def handle_mud_disconnect_def send_to_client_def
          pack_frame_def struct_pack_BH_def encode_def json_dumps_def Let_def)
qed

text \<open>
  Claim C6, amended. For every handshake whose first frame is a Control frame
  with a JSON object without \<open>"resume"\<close>, and whose dial is refused, the
  client is sent a Control frame with the reason \<open>Connection refused\<close>, its
  writer is closed, and the new session stays in the registry under its token.
\<close>

theorem refused_dial:
  assumes "fst (unpack_frames data) = (TYPE_CTRL, payload) # others"
    and "loads env payload = Some (JObj kvs)"
    and "''resume'' \<notin> set (map fst kvs)"
    and "open_connection env = Refused"
  shows "\<exists>frame.
     pack_frame TYPE_CTRL (encode (json_dumps ''error'' ''Connection refused'')) = Inr frame \<and>
     handle_client env sessions reader writer data =
       (None,
        sessions(uuid4_hex env \<mapsto>
          (Session (uuid4_hex env) (now env))\<lparr>client_writer := Some writer, mud_task := True\<rparr>),
        [CreateTask (ReadMud (uuid4_hex env)), Write writer frame, Close writer])"
proof -
  have "length (encode (json_dumps ''error'' ''Connection refused'')) \<le> 255"
    by (simp add: encode_def json_dumps_def)
  from pack_ctrl_short [OF this] obtain frame where
    f: "pack_frame TYPE_CTRL (encode (json_dumps ''error'' ''Connection refused'')) = Inr frame"
    by blast
  have "handle_client env sessions reader writer data =
       (None,
        sessions(uuid4_hex env \<mapsto>
          (Session (uuid4_hex env) (now env))\<lparr>client_writer := Some writer, mud_task := True\<rparr>),
        [CreateTask (ReadMud (uuid4_hex env)), Write writer frame, Close writer])"
    using assms f
    by (simp add: handle_client_def connect_to_mud_def attach_client_def
          handle_mud_disconnect_def send_to_client_def Session_def Let_def)
  with f show ?thesis by blast
qed


theorem refused_dial_witness:
  \<open>handle_client refusing_env Map.empty 5 6 ([1, 0, 13] @ encode ''{"new": true}'') =
     (None,
      [''0a1b'' \<mapsto> (Session ''0a1b'' 100)\<lparr>client_writer := Some 6, mud_task := True\<rparr>],
      [CreateTask (ReadMud ''0a1b''),
       Write 6 ([1, 0, 31] @ encode (json_dumps ''error'' ''Connection refused'')),
       Close 6])\<close>
proof -
  have p: \<open>pack_frame 1 (encode ''{"new": true}'') = Inr ([1, 0, 13] @ encode ''{"new": true}'')\<close>
    by (simp add: pack_frame_def struct_pack_BH_def encode_def)
  have u: \<open>fst (unpack_frames ([1, 0, 13] @ encode ''{"new": true}'')) =
          (TYPE_CTRL, encode ''{"new": true}'') # []\<close>
    using frames_of_packed [OF p, of "[]"] by (simp add: unpack_frames_short TYPE_CTRL_def)
  have l: \<open>loads refusing_env (encode ''{"new": true}'') = Some (JObj [(''new'', JBool True)])\<close>
    by (simp add: refusing_env_def example_env_def example_loads_def encode_def)
  have r: "''resume'' \<notin> set (map fst [(''new'', JBool True)])"
    by simp
  have d: "open_connection refusing_env = Refused"
    by (simp add: refusing_env_def)
  show ?thesis
    using refused_dial [OF u l r d, of Map.empty 5 6]
    by (auto simp: refusing_env_def example_env_def pack_frame_def struct_pack_BH_def
          TYPE_CTRL_def encode_def json_dumps_def)
qed

text \<open>
  Claim C4 on the code: a first Control frame with the payload \<open>{}\<close>, which
  has neither \<open>"new"\<close> nor \<open>"resume"\<close>, creates and registers a session, dials
  and attaches the client. No error frame is written and nothing is closed.
\<close>

theorem handshake_without_new_or_resume:
  \<open>handle_client example_env Map.empty 5 6 ([1, 0, 2] @ encode ''{}'') =
     (None,
      [''0a1b'' \<mapsto> (Session ''0a1b'' 100)
         \<lparr>client_writer := Some 6, mud_reader := Some 1, mud_writer := Some 2,
          mud_task := True\<rparr>],
      [CreateTask (ReadMud ''0a1b''),
       Write 6 ([1, 0, 19] @ encode ''{"session": "0a1b"}''),
       CreateTask (ReadClient ''0a1b'' 5)])\<close>
proof -
  have p: \<open>pack_frame 1 (encode ''{}'') = Inr ([1, 0, 2] @ encode ''{}'')\<close>
    by (simp add: pack_frame_def struct_pack_BH_def encode_def)
  have u: \<open>fst (unpack_frames ([1, 0, 2] @ encode ''{}'')) = [(1, encode ''{}'')]\<close>
    using frames_of_packed [OF p, of "[]"] by (simp add: unpack_frames_short)
  show ?thesis
    unfolding handle_client_def u
    by (simp add: example_env_def example_loads_def TYPE_CTRL_def Session_def
          connect_to_mud_def attach_client_def send_to_client_def replay_def
          pack_frame_def struct_pack_BH_def encode_def json_dumps_def Let_def)
qed

text \<open>
  Claim C2 on the code: with the window \<open>[4, 10)\<close>, a resume at offset 2
  makes \<open>skip\<close> negative, so the first chunk is sliced from its end. The client
  is sent the bytes 5 to 9 as Data and no error frame.
\<close>

theorem resume_below_window:
  \<open>window_start trimmed_session = 4 \<and>
   attach_client 5 6 (JInt 2) 60 trimmed_session =
     (None, trimmed_session\<lparr>client_writer := Some 6, last_active := 60\<rparr>,
      [Write 6 ([1, 0, 16] @ encode ''{"session": "t"}''),
       Write 6 [0, 0, 2, 5, 6],
       Write 6 [0, 0, 3, 7, 8, 9],
       CreateTask (ReadClient ''t'' 5)])\<close>
  by (simp add: trimmed_session_eq window_start_def buffered_def attach_client_def
        send_to_client_def replay_def slice_from_def TYPE_CTRL_def TYPE_DATA_def
        pack_frame_def struct_pack_BH_def encode_def json_dumps_def Let_def)

section \<open>Invariants of the buffer\<close>

lemma length_concat_buffered: "length (concat buf) = buffered buf"
  by (induction buf) (simp_all add: buffered_def)

lemma holds_suffix_iff:
  "holds_suffix stream s \<longleftrightarrow>
     total_bytes s = int (length stream) \<and> (\<exists>pre. stream = pre @ concat (buffer s))"
proof
  assume h: "holds_suffix stream s"
  then have "stream = take (length stream - buffered (buffer s)) stream @ concat (buffer s)"
    by (simp add: holds_suffix_def)
  with h show "total_bytes s = int (length stream) \<and> (\<exists>pre. stream = pre @ concat (buffer s))"
    unfolding holds_suffix_def by blast
next
  assume "total_bytes s = int (length stream) \<and> (\<exists>pre. stream = pre @ concat (buffer s))"
  then obtain pre where t: "total_bytes s = int (length stream)"
    and p: "stream = pre @ concat (buffer s)" by blast
  have "length stream = length pre + buffered (buffer s)"
    by (subst p) (simp add: length_concat_buffered)
  then show "holds_suffix stream s"
    using t p by (simp add: holds_suffix_def)
qed

lemma evict_drop: "\<exists>n. evict buf = drop n buf"
proof (induction buf)
  case Nil
  show ?case by simp
next
  case (Cons c cs)
  show ?case
  proof (cases "BUFFER_LIMIT < buffered (c # cs)")
    case True
    from Cons obtain n where "evict cs = drop n cs" by blast
    then have "evict (c # cs) = drop (Suc n) (c # cs)" using True by simp
    then show ?thesis by blast
  next
    case False
    then have "evict (c # cs) = drop 0 (c # cs)" by simp
    then show ?thesis by blast
  qed
qed

lemma trim_loop_drop: "\<exists>n. snd (trim_loop ack cur buf) = drop n buf"
proof (induction buf arbitrary: cur)
  case Nil
  show ?case by simp
next
  case (Cons c cs)
  show ?case
  proof (cases "py_int ack")
    case (Inl e)
    then have "snd (trim_loop ack cur (c # cs)) = drop 0 (c # cs)" by simp
    then show ?thesis by blast
  next
    case (Inr a)
    show ?thesis
    proof (cases "cur + int (length c) \<le> a")
      case True
      from Cons [of "cur + int (length c)"] obtain n where
        "snd (trim_loop ack (cur + int (length c)) cs) = drop n cs" by blast
      then have "snd (trim_loop ack cur (c # cs)) = drop (Suc n) (c # cs)"
        using Inr True by simp
      then show ?thesis by blast
    next
      case False
      then have "snd (trim_loop ack cur (c # cs)) = drop 0 (c # cs)" using Inr by simp
      then show ?thesis by blast
    qed
  qed
qed

lemma concat_drop_suffix: "\<exists>pre. concat buf = pre @ concat (drop n buf)"
proof -
  have "concat buf = concat (take n buf) @ concat (drop n buf)"
    by (metis append_take_drop_id concat_append)
  then show ?thesis by blast
qed

lemma holds_suffix_Session: "holds_suffix [] (Session sid t)"
  by (simp add: holds_suffix_def Session_def buffered_def)

lemma holds_suffix_append_buffer:
  assumes "holds_suffix stream s"
  shows "holds_suffix (stream @ data) (append_buffer data s)"
proof -
  from assms obtain pre where t: "total_bytes s = int (length stream)"
    and p: "stream = pre @ concat (buffer s)"
    by (auto simp: holds_suffix_iff)
  obtain n where n: "evict (buffer s @ [data]) = drop n (buffer s @ [data])"
    using evict_drop by blast
  obtain pre' where "concat (buffer s @ [data]) = pre' @ concat (drop n (buffer s @ [data]))"
    using concat_drop_suffix by blast
  then have "stream @ data = (pre @ pre') @ concat (buffer (append_buffer data s))"
    using p n by (simp add: append_buffer_def)
  then have ex: "\<exists>q. stream @ data = q @ concat (buffer (append_buffer data s))"
    by blast
  have tb: "total_bytes (append_buffer data s) = int (length (stream @ data))"
    using t by (simp add: append_buffer_def)
  show ?thesis
    unfolding holds_suffix_iff using tb ex by (rule conjI)
qed

lemma trim_buffer_snd:
  "snd (trim_buffer s) =
     s\<lparr>buffer := snd (trim_loop (ack_offset s) (window_start s) (buffer s))\<rparr>"
  by (simp add: trim_buffer_def case_prod_unfold)

lemma holds_suffix_trim_buffer:
  assumes "holds_suffix stream s"
  shows "holds_suffix stream (snd (trim_buffer s))"
proof -
  from assms obtain pre where t: "total_bytes s = int (length stream)"
    and p: "stream = pre @ concat (buffer s)"
    by (auto simp: holds_suffix_iff)
  obtain n where n: "snd (trim_loop (ack_offset s) (window_start s) (buffer s)) = drop n (buffer s)"
    using trim_loop_drop by blast
  obtain pre' where "concat (buffer s) = pre' @ concat (drop n (buffer s))"
    using concat_drop_suffix by blast
  then have "stream = (pre @ pre') @ concat (buffer (snd (trim_buffer s)))"
    using p n by (simp add: trim_buffer_snd)
  then have ex: "\<exists>q. stream = q @ concat (buffer (snd (trim_buffer s)))"
    by blast
  have tb: "total_bytes (snd (trim_buffer s)) = int (length stream)"
    using t by (simp add: trim_buffer_snd)
  show ?thesis
    unfolding holds_suffix_iff using tb ex by (rule conjI)
qed

lemma well_formed_Session: "length sid \<le> 32 \<Longrightarrow> well_formed (Session sid t)"
  by (simp add: well_formed_def Session_def)

lemma well_formed_append_buffer:
  assumes "well_formed s" and "1 \<le> length data" and "length data \<le> 1024"
  shows "well_formed (append_buffer data s)"
proof -
  obtain n where n: "evict (buffer s @ [data]) = drop n (buffer s @ [data])"
    using evict_drop by blast
  have "set (evict (buffer s @ [data])) \<subseteq> set (buffer s @ [data])"
    unfolding n by (rule set_drop_subset)
  then have "set (buffer (append_buffer data s)) \<subseteq> set (buffer s @ [data])"
    by (simp add: append_buffer_def)
  with assms show ?thesis
    unfolding well_formed_def by (auto simp: append_buffer_def)
qed

lemma well_formed_trim_buffer:
  assumes "well_formed s"
  shows "well_formed (snd (trim_buffer s))"
proof -
  obtain n where "snd (trim_loop (ack_offset s) (window_start s) (buffer s)) = drop n (buffer s)"
    using trim_loop_drop by blast
  then have "set (buffer (snd (trim_buffer s))) \<subseteq> set (buffer s)"
    by (simp add: trim_buffer_snd set_drop_subset)
  with assms show ?thesis
    unfolding well_formed_def by (auto simp: trim_buffer_snd)
qed

lemma holds_suffix_fields:
  "holds_suffix stream (s\<lparr>last_active := t\<rparr>) = holds_suffix stream s"
  "holds_suffix stream (s\<lparr>ack_offset := v\<rparr>) = holds_suffix stream s"
  by (simp_all add: holds_suffix_def)

lemma well_formed_fields:
  "well_formed (s\<lparr>last_active := t\<rparr>) = well_formed s"
  "well_formed (s\<lparr>ack_offset := v\<rparr>) = well_formed s"
  by (simp_all add: well_formed_def)

lemma holds_suffix_handle_control:
  assumes "holds_suffix stream s"
  shows "holds_suffix stream (snd (handle_control ld t payload s))"
proof -
  have tr: "holds_suffix stream (snd (trim_buffer (s\<lparr>ack_offset := v\<rparr>)))" for v
    using assms by (intro holds_suffix_trim_buffer) (simp add: holds_suffix_fields)
  show ?thesis
  proof (cases "ld payload")
    case None
    then show ?thesis using assms by (simp add: handle_control_def)
  next
    case (Some msg)
    show ?thesis
    proof (cases "py_in ''ack'' msg")
      case (Inl e)
      then show ?thesis using Some assms by (simp add: handle_control_def)
    next
      case (Inr b)
      show ?thesis
      proof (cases b)
        case False
        then show ?thesis
          using Some Inr assms by (simp add: handle_control_def holds_suffix_fields)
      next
        case True
        show ?thesis
        proof (cases "py_getitem msg ''ack''")
          case (Inl e)
          then show ?thesis using Some Inr True assms by (simp add: handle_control_def)
        next
          case v: (Inr v)
          obtain e s' where tb: "trim_buffer (s\<lparr>ack_offset := v\<rparr>) = (e, s')"
            by (cases "trim_buffer (s\<lparr>ack_offset := v\<rparr>)")
          with tr [of v] have "holds_suffix stream s'" by simp
          then show ?thesis
            using Some Inr True v tb
            by (cases e) (simp_all add: handle_control_def holds_suffix_fields)
        qed
      qed
    qed
  qed
qed

lemma well_formed_handle_control:
  assumes "well_formed s"
  shows "well_formed (snd (handle_control ld t payload s))"
proof -
  have tr: "well_formed (snd (trim_buffer (s\<lparr>ack_offset := v\<rparr>)))" for v
    using assms by (intro well_formed_trim_buffer) (simp add: well_formed_fields)
  show ?thesis
  proof (cases "ld payload")
    case None
    then show ?thesis using assms by (simp add: handle_control_def)
  next
    case (Some msg)
    show ?thesis
    proof (cases "py_in ''ack'' msg")
      case (Inl e)
      then show ?thesis using Some assms by (simp add: handle_control_def)
    next
      case (Inr b)
      show ?thesis
      proof (cases b)
        case False
        then show ?thesis
          using Some Inr assms by (simp add: handle_control_def well_formed_fields)
      next
        case True
        show ?thesis
        proof (cases "py_getitem msg ''ack''")
          case (Inl e)
          then show ?thesis using Some Inr True assms by (simp add: handle_control_def)
        next
          case v: (Inr v)
          obtain e s' where tb: "trim_buffer (s\<lparr>ack_offset := v\<rparr>) = (e, s')"
            by (cases "trim_buffer (s\<lparr>ack_offset := v\<rparr>)")
          with tr [of v] have "well_formed s'" by simp
          then show ?thesis
            using Some Inr True v tb
            by (cases e) (simp_all add: handle_control_def well_formed_fields)
        qed
      qed
    qed
  qed
qed

lemma holds_suffix_read_mud:
  assumes "holds_suffix stream s" and "read_mud [Inr data] s = (None, s', ev)" and "data \<noteq> []"
  shows "holds_suffix (stream @ data) s'"
  using assms holds_suffix_append_buffer [OF assms(1), of data]
  by (auto simp: Let_def split: option.splits prod.splits)

section \<open>Replay on attach\<close>

lemma data_written_append:
  "data_written w (a @ b) = data_written w a @ data_written w b"
proof (induction a)
  case Nil
  show ?case by simp
next
  case (Cons ev a)
  then show ?case by (cases ev) simp_all
qed

lemma data_written_data_frame:
  assumes "pack_frame TYPE_DATA d = Inr f"
  shows "data_written w (Write w f # ev) = d # data_written w ev"
proof -
  from pack_frame_Inr [OF assms] obtain a b where f: "f = [0, a, b] @ d"
    by (auto simp: TYPE_DATA_def)
  show ?thesis by (simp add: f TYPE_DATA_def numeral_3_eq_3)
qed

lemma data_written_ctrl_frame:
  assumes "pack_frame TYPE_CTRL d = Inr f"
  shows "data_written w (Write w' f # ev) = data_written w ev"
proof -
  from pack_frame_Inr [OF assms] obtain a b where f: "f = [1, a, b] @ d"
    by (auto simp: TYPE_CTRL_def)
  show ?thesis by (simp add: f TYPE_DATA_def)
qed

lemma send_data:
  assumes "client_writer s = Some w" and "length d \<le> 65535"
  shows "\<exists>f. pack_frame TYPE_DATA d = Inr f \<and> send_to_client TYPE_DATA d s = (None, [Write w f])"
  using assms by (simp add: send_to_client_def pack_frame_def struct_pack_BH_def TYPE_DATA_def)

lemma send_ctrl_no_data:
  "data_written w (snd (send_to_client TYPE_CTRL d s)) = []"
proof (cases "client_writer s")
  case None
  then show ?thesis by (simp add: send_to_client_def)
next
  case (Some w')
  show ?thesis
  proof (cases "pack_frame TYPE_CTRL d")
    case (Inl e)
    then show ?thesis using Some by (simp add: send_to_client_def)
  next
    case (Inr f)
    then show ?thesis
      using Some
      by (simp add: send_to_client_def data_written_ctrl_frame [OF Inr]
               del: data_written.simps(2))
  qed
qed

lemma replay_from_zero:
  assumes "client_writer s = Some w"
    and "\<forall>c \<in> set buf. 1 \<le> length c \<and> length c \<le> 65535"
  shows "fst (replay_from s 0 buf) = None \<and> data_written w (snd (replay_from s 0 buf)) = buf"
  using assms(2)
proof (induction buf)
  case Nil
  show ?case by simp
next
  case (Cons c cs)
  then have ih: "fst (replay_from s 0 cs) = None"
    "data_written w (snd (replay_from s 0 cs)) = cs" by simp_all
  from Cons.prems have c: "c \<noteq> []" "length c \<le> 65535" by auto
  from send_data [OF assms(1) c(2)] obtain f where
    f: "pack_frame TYPE_DATA c = Inr f" "send_to_client TYPE_DATA c s = (None, [Write w f])"
    by blast
  show ?case
    using c ih f
    by (simp add: slice_from_def case_prod_unfold data_written_data_frame [OF f(1)]
             del: data_written.simps(2))
qed

lemma replay_from_split:
  assumes "client_writer s = Some w"
    and "\<forall>c \<in> set buf. 1 \<le> length c \<and> length c \<le> 65535"
    and "0 \<le> skip" and "skip < int (buffered buf)"
  shows "\<exists>pre c rest.
           buf = pre @ c # rest \<and>
           int (buffered pre) \<le> skip \<and> skip < int (buffered pre) + int (length c) \<and>
           fst (replay_from s skip buf) = None \<and>
           data_written w (snd (replay_from s skip buf))
             = drop (nat skip - buffered pre) c # rest"
  using assms(2-)
proof (induction buf arbitrary: skip)
  case Nil
  then show ?case by (simp add: buffered_def)
next
  case (Cons c cs)
  from Cons.prems have c: "1 \<le> length c" "length c \<le> 65535" by simp_all
  show ?case
  proof (cases "int (length c) \<le> skip")
    case True
    have "\<exists>pre c' rest.
           cs = pre @ c' # rest \<and>
           int (buffered pre) \<le> skip - int (length c) \<and>
           skip - int (length c) < int (buffered pre) + int (length c') \<and>
           fst (replay_from s (skip - int (length c)) cs) = None \<and>
           data_written w (snd (replay_from s (skip - int (length c)) cs))
             = drop (nat (skip - int (length c)) - buffered pre) c' # rest"
      using Cons.prems True by (intro Cons.IH) (simp_all add: buffered_def)
    then obtain pre c' rest where h:
      "cs = pre @ c' # rest"
      "int (buffered pre) \<le> skip - int (length c)"
      "skip - int (length c) < int (buffered pre) + int (length c')"
      "fst (replay_from s (skip - int (length c)) cs) = None"
      "data_written w (snd (replay_from s (skip - int (length c)) cs))
             = drop (nat (skip - int (length c)) - buffered pre) c' # rest"
      by blast
    have "c # cs = (c # pre) @ c' # rest \<and>
          int (buffered (c # pre)) \<le> skip \<and>
          skip < int (buffered (c # pre)) + int (length c') \<and>
          fst (replay_from s skip (c # cs)) = None \<and>
          data_written w (snd (replay_from s skip (c # cs)))
            = drop (nat skip - buffered (c # pre)) c' # rest"
      using h True by (simp add: buffered_def nat_diff_distrib' diff_diff_eq)
    then show ?thesis by blast
  next
    case False
    with Cons.prems have sk: "0 \<le> skip" "nat skip < length c" by simp_all
    have len: "length (slice_from skip c) \<le> 65535"
      using c sk by (simp add: slice_from_def)
    from send_data [OF assms(1) len] obtain f where
      f: "pack_frame TYPE_DATA (slice_from skip c) = Inr f"
         "send_to_client TYPE_DATA (slice_from skip c) s = (None, [Write w f])"
      by blast
    have z: "fst (replay_from s 0 cs) = None \<and> data_written w (snd (replay_from s 0 cs)) = cs"
      using Cons.prems by (intro replay_from_zero [OF assms(1)]) simp
    have "c # cs = [] @ c # cs \<and>
          int (buffered []) \<le> skip \<and>
          skip < int (buffered []) + int (length c) \<and>
          fst (replay_from s skip (c # cs)) = None \<and>
          data_written w (snd (replay_from s skip (c # cs)))
            = drop (nat skip - buffered []) c # cs"
      using False sk f z
      by (simp add: buffered_def slice_from_def case_prod_unfold
                    data_written_data_frame [OF f(1)]
               del: data_written.simps(2))
    then show ?thesis by blast
  qed
qed

lemma session_frame:
  assumes "length sid \<le> 32"
  shows "\<exists>f. pack_frame TYPE_CTRL (encode (json_dumps ''session'' sid)) = Inr f"
  using assms by (simp add: pack_frame_def struct_pack_BH_def TYPE_CTRL_def encode_def json_dumps_def)

lemma disconnect_no_data:
  "data_written w (snd (handle_mud_disconnect reason s)) = []"
  by (simp add: handle_mud_disconnect_def Let_def data_written_append send_ctrl_no_data
         split: option.splits)

lemma attach_beyond_total:
  assumes "total_bytes s \<le> offset"
  shows "data_written w (snd (snd (attach_client reader writer (JInt offset) t s))) = []"
proof -
  let ?s = "s\<lparr>client_writer := Some writer, last_active := t\<rparr>"
  let ?m = "encode (json_dumps ''session'' (session_id ?s))"
  show ?thesis
  proof (cases "mud_reader s = None \<or> mud_writer s = None")
    case True
    then show ?thesis
      using disconnect_no_data [of w "''Connection refused''" ?s]
      by (auto simp: attach_client_def Let_def case_prod_unfold)
  next
    case False
    have r: "replay (JInt offset) ?s = (None, [])"
      using assms by (simp add: replay_def)
    obtain e ev where sc: "send_to_client TYPE_CTRL ?m ?s = (e, ev)"
      by (cases "send_to_client TYPE_CTRL ?m ?s")
    have nd: "data_written w ev = []"
      using send_ctrl_no_data [of w ?m ?s] sc by simp
    show ?thesis
      using False r sc nd
      by (cases e) (auto simp: attach_client_def Let_def data_written_append)
  qed
qed

lemma concat_split_drop:
  assumes "buffered pre \<le> k" and "k < buffered pre + length c"
  shows "concat (drop (k - buffered pre) c # rest) = drop k (concat (pre @ c # rest))"
  using assms by (simp add: length_concat_buffered)

lemma attach_within_window:
  assumes "holds_suffix stream s" and "well_formed s"
    and "mud_reader s \<noteq> None" and "mud_writer s \<noteq> None"
    and "window_start s \<le> offset" and "offset < total_bytes s"
  shows "\<exists>s' ev pre c rest.
           attach_client reader writer (JInt offset) t s = (None, s', ev) \<and>
           concat (data_written writer ev) = drop (nat offset) stream \<and>
           buffer s = pre @ c # rest \<and>
           int (buffered pre) \<le> offset - window_start s \<and>
           offset - window_start s < int (buffered pre) + int (length c) \<and>
           data_written writer ev = drop (nat (offset - window_start s) - buffered pre) c # rest"
proof -
  let ?s = "s\<lparr>client_writer := Some writer, last_active := t\<rparr>"
  let ?skip = "offset - window_start s"
  from assms(2) have sid: "length (session_id s) \<le> 32"
    and chunks: "\<forall>c \<in> set (buffer ?s). 1 \<le> length c \<and> length c \<le> 65535"
    by (auto simp: well_formed_def)
  from session_frame [OF sid] obtain sf where
    sf: "pack_frame TYPE_CTRL (encode (json_dumps ''session'' (session_id s))) = Inr sf"
    by blast
  from assms(1) have tot: "total_bytes s = int (length stream)"
    and le: "buffered (buffer s) \<le> length stream"
    and cc: "concat (buffer s) = drop (length stream - buffered (buffer s)) stream"
    by (simp_all add: holds_suffix_def)
  have ws: "window_start s = int (length stream - buffered (buffer s))"
    using tot le by (simp add: window_start_def)
  have sk: "0 \<le> ?skip" "?skip < int (buffered (buffer ?s))"
    using assms(5,6) tot le by (simp_all add: window_start_def)
  have cw: "client_writer ?s = Some writer" by simp
  from replay_from_split [OF cw chunks sk] obtain pre c rest where h:
    "buffer ?s = pre @ c # rest"
    "int (buffered pre) \<le> ?skip" "?skip < int (buffered pre) + int (length c)"
    "fst (replay_from ?s ?skip (buffer ?s)) = None"
    "data_written writer (snd (replay_from ?s ?skip (buffer ?s)))
       = drop (nat ?skip - buffered pre) c # rest"
    by auto
  obtain ev' where rf: "replay_from ?s ?skip (buffer s) = (None, ev')"
    using h(4) by (cases "replay_from ?s ?skip (buffer s)") simp
  have dw: "data_written writer ev' = drop (nat ?skip - buffered pre) c # rest"
    using h(5) rf by simp
  have rp: "replay (JInt offset) ?s = (None, ev')"
    using assms(6) rf by (simp add: replay_def window_start_def)
  let ?ev = "[Write writer sf] @ ev' @ [CreateTask (ReadClient (session_id s) reader)]"
  have at: "attach_client reader writer (JInt offset) t s = (None, ?s, ?ev)"
    using assms(3,4) sf rp by (auto simp: attach_client_def Let_def send_to_client_def)
  have dwe: "data_written writer ?ev = drop (nat ?skip - buffered pre) c # rest"
    using dw by (simp add: data_written_append data_written_ctrl_frame [OF sf]
                      del: data_written.simps(2))
  have "concat (drop (nat ?skip - buffered pre) c # rest) = drop (nat ?skip) (concat (buffer s))"
    using h(1-3) concat_split_drop [of pre "nat ?skip" c rest] by simp
  also have "\<dots> = drop (nat ?skip + (length stream - buffered (buffer s))) stream"
    by (simp add: cc)
  also have "nat ?skip + (length stream - buffered (buffer s)) = nat offset"
    using sk(1) ws by simp
  finally have cat: "concat (data_written writer ?ev) = drop (nat offset) stream"
    using dwe by simp
  from at cat dwe h(1-3) show ?thesis by auto
qed

text \<open>
  Claim C7, as stated, fails for a session whose upstream has closed: such a
  session is still registered, and \<open>attach_client\<close> answers any resume with
  the reason \<open>Connection refused\<close> and closes, replaying nothing. Here the
  window is \<open>[4, 10)\<close> and the offset is 5.
\<close>

theorem resume_on_orphaned_session:
  "holds_suffix [0, 1, 2, 3, 4, 5, 6, 7, 8, 9] orphaned_session \<and>
   window_start orphaned_session \<le> 5 \<and> 5 < total_bytes orphaned_session \<and>
   attach_client 5 6 (JInt 5) 60 orphaned_session =
     (None, orphaned_session\<lparr>client_writer := Some 6, last_active := 60\<rparr>,
      [Write 6 ([1, 0, 31] @ encode (json_dumps ''error'' ''Connection refused'')), Close 6]) \<and>
   concat (data_written 6 (snd (snd (attach_client 5 6 (JInt 5) 60 orphaned_session))))
     \<noteq> drop 5 [0, 1, 2, 3, 4, 5, 6, 7, 8, 9]"
  by (simp add: orphaned_session_eq holds_suffix_def window_start_def buffered_def TYPE_DATA_def
        attach_client_def handle_mud_disconnect_def send_to_client_def TYPE_CTRL_def
        pack_frame_def struct_pack_BH_def encode_def json_dumps_def Let_def)

text \<open>
  Claim C7, amended. Take a session that holds a suffix of the upstream stream
  and whose upstream reader and writer are present. A resume at an offset in
  \<open>[window_start, total_bytes)\<close> succeeds; the Data payloads it writes are the
  rest of the chunk that contains the offset, cut at the offset, followed by
  the later chunks whole, and joined they are the bytes of the stream from the
  offset to its end. A resume at an offset of at least \<open>total_bytes\<close>, on any
  session, writes no Data frame.
\<close>

theorem resume_replay:
  assumes "holds_suffix stream s" and "well_formed s"
    and "mud_reader s \<noteq> None" and "mud_writer s \<noteq> None"
    and "window_start s \<le> offset" and "offset < total_bytes s"
    and "total_bytes s2 \<le> offset2"
  shows "(\<exists>s' ev pre c rest.
            attach_client reader writer (JInt offset) t s = (None, s', ev) \<and>
            concat (data_written writer ev) = drop (nat offset) stream \<and>
            buffer s = pre @ c # rest \<and>
            int (buffered pre) \<le> offset - window_start s \<and>
            offset - window_start s < int (buffered pre) + int (length c) \<and>
            data_written writer ev
              = drop (nat (offset - window_start s) - buffered pre) c # rest) \<and>
         data_written writer (snd (snd (attach_client reader writer (JInt offset2) t s2))) = []"
  using attach_within_window [OF assms(1-6)] attach_beyond_total [OF assms(7)]
  by (rule conjI)

theorem resume_replay_witness:
  "(\<exists>s' ev. attach_client 5 6 (JInt 5) 60 trimmed_session = (None, s', ev) \<and>
            data_written 6 ev = [[5, 6], [7, 8, 9]]) \<and>
   data_written 6 (snd (snd (attach_client 5 6 (JInt 10) 60 trimmed_session))) = []"
proof -
  have h1: "holds_suffix [0, 1, 2, 3, 4, 5, 6, 7, 8, 9] trimmed_session"
    by (simp add: trimmed_session_eq holds_suffix_def buffered_def)
  have h2: "well_formed trimmed_session"
    by (simp add: trimmed_session_eq well_formed_def)
  have h3: "mud_reader trimmed_session \<noteq> None" and h4: "mud_writer trimmed_session \<noteq> None"
    by (simp_all add: trimmed_session_eq)
  have h5: "window_start trimmed_session \<le> 5" and h6: "5 < total_bytes trimmed_session"
    and h7: "total_bytes trimmed_session \<le> 10"
    by (simp_all add: trimmed_session_eq window_start_def buffered_def)
  from resume_replay [OF h1 h2 h3 h4 h5 h6 h7, of 5 6 60]
  obtain s' ev pre c rest where r:
    "attach_client 5 6 (JInt 5) 60 trimmed_session = (None, s', ev)"
    "buffer trimmed_session = pre @ c # rest"
    "int (buffered pre) \<le> 5 - window_start trimmed_session"
    "5 - window_start trimmed_session < int (buffered pre) + int (length c)"
    "data_written 6 ev = drop (nat (5 - window_start trimmed_session) - buffered pre) c # rest"
    and b: "data_written 6 (snd (snd (attach_client 5 6 (JInt 10) 60 trimmed_session))) = []"
    by blast
  have ws: "window_start trimmed_session = 4"
    by (simp add: trimmed_session_eq window_start_def buffered_def)
  have buf: "[[4, 5, 6], [7, 8, 9]] = pre @ c # rest"
    using r(2) by (simp add: trimmed_session_eq)
  have "pre = []"
  proof (cases pre)
    case Nil
    then show ?thesis .
  next
    case (Cons p ps)
    with buf have "p = [4, 5, 6]" by simp
    with Cons r(3) ws show ?thesis by (simp add: buffered_def)
  qed
  with buf have "c = [4, 5, 6]" "rest = [[7, 8, 9]]" by simp_all
  with r(5) ws \<open>pre = []\<close> have "data_written 6 ev = [[5, 6], [7, 8, 9]]"
    by (simp add: buffered_def)
  with r(1) b show ?thesis by blast
qed

section \<open>The handshake\<close>

lemma write_targets_append:
  "write_targets (a @ b) = write_targets a @ write_targets b"
proof (induction a)
  case Nil
  show ?case by simp
next
  case (Cons ev a)
  then show ?case by (cases ev) simp_all
qed

lemma send_targets:
  "client_writer s = Some w \<Longrightarrow> set (write_targets (snd (send_to_client k d s))) \<subseteq> {w}"
  by (simp add: send_to_client_def split: sum.splits)

lemma replay_from_targets:
  "client_writer s = Some w \<Longrightarrow> set (write_targets (snd (replay_from s skip buf))) \<subseteq> {w}"
proof (induction buf arbitrary: skip)
  case Nil
  show ?case by simp
next
  case (Cons c cs)
  show ?case
  proof (cases "int (length c) \<le> skip")
    case True
    then show ?thesis using Cons by simp
  next
    case False
    obtain e ev where sc: "send_to_client TYPE_DATA (slice_from skip c) s = (e, ev)"
      by (cases "send_to_client TYPE_DATA (slice_from skip c) s")
    have t: "set (write_targets ev) \<subseteq> {w}"
      using send_targets [OF Cons.prems, of TYPE_DATA "slice_from skip c"] sc by simp
    show ?thesis
      using False sc t Cons.IH [OF Cons.prems, of 0]
      by (cases e) (simp_all add: case_prod_unfold write_targets_append)
  qed
qed

lemma replay_all_targets:
  "client_writer s = Some w \<Longrightarrow> set (write_targets (snd (replay_all s buf))) \<subseteq> {w}"
proof (induction buf)
  case Nil
  show ?case by simp
next
  case (Cons c cs)
  obtain e ev where sc: "send_to_client TYPE_DATA c s = (e, ev)"
    by (cases "send_to_client TYPE_DATA c s")
  have t: "set (write_targets ev) \<subseteq> {w}"
    using send_targets [OF Cons.prems, of TYPE_DATA c] sc by simp
  show ?case
    using sc t Cons.IH [OF Cons.prems]
    by (cases e) (simp_all add: case_prod_unfold write_targets_append)
qed

lemma replay_targets:
  "client_writer s = Some w \<Longrightarrow> set (write_targets (snd (replay off s))) \<subseteq> {w}"
  using replay_from_targets [of s w] replay_all_targets [of s w]
  by (simp add: replay_def split: sum.splits)

lemma disconnect_targets:
  "client_writer s = Some w \<Longrightarrow>
   set (write_targets (snd (handle_mud_disconnect reason s))) \<subseteq> {w}"
  using send_targets [of s w TYPE_CTRL "encode (json_dumps ''error'' reason)"]
  by (simp add: handle_mud_disconnect_def Let_def write_targets_append split: option.splits)

lemma attach_targets:
  "set (write_targets (snd (snd (attach_client reader writer off t s)))) \<subseteq> {writer}"
proof -
  let ?s = "s\<lparr>client_writer := Some writer, last_active := t\<rparr>"
  have cw: "client_writer ?s = Some writer" by simp
  obtain e ev where sc:
    "send_to_client TYPE_CTRL (encode (json_dumps ''session'' (session_id ?s))) ?s = (e, ev)"
    by (cases "send_to_client TYPE_CTRL (encode (json_dumps ''session'' (session_id ?s))) ?s")
  have t1: "set (write_targets ev) \<subseteq> {writer}"
    using send_targets [OF cw, of TYPE_CTRL "encode (json_dumps ''session'' (session_id ?s))"] sc
    by simp
  obtain e' ev' where rp: "replay off ?s = (e', ev')"
    by (cases "replay off ?s")
  have t2: "set (write_targets ev') \<subseteq> {writer}"
    using replay_targets [OF cw, of off] rp by simp
  show ?thesis
    using disconnect_targets [OF cw, of "''Connection refused''"] sc rp t1 t2
    by (cases e; cases e')
       (auto simp: attach_client_def Let_def case_prod_unfold write_targets_append)
qed

lemma reject_targets:
  "set (write_targets (snd (snd (reject sessions writer msg)))) \<subseteq> {writer}"
  by (simp add: reject_def split: sum.splits)

lemma connect_targets:
  "write_targets (snd (snd (connect_to_mud d s))) = []"
  by (cases d) (simp_all add: connect_to_mud_def)

lemma handle_client_targets:
  "set (write_targets (snd (snd (handle_client env sessions reader writer data)))) \<subseteq> {writer}"
proof -
  have a: "\<And>off s. set (write_targets (snd (snd (attach_client reader writer off (now env) s))))
             \<subseteq> {writer}"
    by (rule attach_targets)
  have r: "\<And>msg. set (write_targets (snd (snd (reject sessions writer msg)))) \<subseteq> {writer}"
    by (rule reject_targets)
  show ?thesis
    unfolding handle_client_def Let_def
    using a r connect_targets
    by (auto simp: case_prod_unfold write_targets_append
             split: list.splits option.splits sum.splits bool.splits)
qed

text \<open>
  Claim C10. \<open>handle_client\<close> works on one read and looks at the first
  decoded frame only: whatever follows the first frame in that read, complete
  frames or a partial one, changes nothing in its result (exception, registry,
  events). Its writes all go to the client writer, none upstream, and the
  client loop it starts begins with an empty bytearray.
\<close>

theorem handshake_reads_first_frame_only:
  assumes "pack_frame kind payload = Inr first"
  shows "handle_client env sessions reader writer (first @ extra)
           = handle_client env sessions reader writer first \<and>
         set (write_targets (snd (snd (handle_client env sessions reader writer (first @ extra)))))
           \<subseteq> {writer} \<and>
         read_client (loads env) reads s = read_client_loop (loads env) [] reads s"
proof -
  have a: "fst (unpack_frames (first @ extra)) = (kind, payload) # fst (unpack_frames extra)"
    by (rule frames_of_packed [OF assms])
  have b: "fst (unpack_frames first) = [(kind, payload)]"
    using frames_of_packed [OF assms, of "[]"] by (simp add: unpack_frames_short)
  have "handle_client env sessions reader writer (first @ extra)
          = handle_client env sessions reader writer first"
    by (simp add: handle_client_def a b)
  then show ?thesis
    using handle_client_targets [of env sessions reader writer "first @ extra"]
    by (simp add: read_client_def)
qed

theorem handshake_reads_first_frame_only_witness:
  \<open>handle_client example_env Map.empty 5 6
      (([1, 0, 13] @ encode ''{"new": true}'') @ [0, 0, 1, 65, 1, 0])
     = handle_client example_env Map.empty 5 6 ([1, 0, 13] @ encode ''{"new": true}'') \<and>
   set (write_targets (snd (snd (handle_client example_env Map.empty 5 6
      (([1, 0, 13] @ encode ''{"new": true}'') @ [0, 0, 1, 65, 1, 0]))))) \<subseteq> {6}\<close>
proof -
  have p: \<open>pack_frame 1 (encode ''{"new": true}'') = Inr ([1, 0, 13] @ encode ''{"new": true}'')\<close>
    by (simp add: pack_frame_def struct_pack_BH_def encode_def)
  from handshake_reads_first_frame_only
         [OF p, of example_env Map.empty 5 6 "[0, 0, 1, 65, 1, 0]" "[]" connected_session]
  show ?thesis by blast
qed

end
